theory Spec2Isabelle
  imports Main "HOL-Library.AList"
begin

section \<open>Data model of translate.py\<close>

text \<open>
  A Python \<open>str\<close> is represented by its UTF-8 bytes, so that \<open>string\<close> equality is
  equality of Python strings and \<open>str.isascii()\<close> (every code point below 128) is
  "every byte below 128". The string "caf\'e" is \<open>''caf'' @ [CHR 0xC3, CHR 0xA9]\<close>.
\<close>

definition isascii :: "string \<Rightarrow> bool" where
  "isascii s = list_all (\<lambda>c. (of_char c :: nat) < 128) s"

text \<open>
  A cell of a DataFrame, and a column label: a string, any other non-missing scalar
  (numbers stand for all of them), or a missing value (\<open>NaN\<close> and \<open>None\<close>).
\<close>

datatype val = Str string | Num int | NA

text \<open>
  A \<open>pandas.DataFrame\<close>: its column labels and its grid of cells, row by row.
  The row index is not touched by the program and is left out.
\<close>

record DataFrame =
  columns :: "val list"
  rows :: "val list list"

text \<open>A dict whose insertion order matters (the loaded and the written workbook).\<close>

type_synonym workbook = "(string \<times> DataFrame) list"

datatype error = FileNotFoundError | AttributeError | ReadError

datatype level = ERROR | WARNING | INFO

type_synonym log_record = "level \<times> string"

text \<open>
  The external capabilities. \<open>client text src trgt\<close> is
  \<open>client.translate_text(Text=text, SourceLanguageCode=src, TargetLanguageCode=trgt)\<close>
  followed by the lookup \<open>resp['TranslatedText']\<close>: \<open>Inr\<close> the translated text, or
  \<open>Inl\<close> the message of the exception either of the two raised.
\<close>

type_synonym service = "string \<Rightarrow> string \<Rightarrow> string \<Rightarrow> string + string"

text \<open>
  The \<open>Translator\<close> object. \<open>logged\<close> holds the records handed to the logger, in order;
  \<open>calls\<close> holds the texts handed to \<open>client.translate_text\<close>, in order.
\<close>

record translator =
  file_path :: string
  cache :: "string \<rightharpoonup> string"
  src_lang :: string
  trgt_lang :: string
  logged :: "log_record list"
  calls :: "string list"

section \<open>Construction\<close>

text \<open>The \<open>file_path\<close> setter (lines 29-35); \<open>path_exists\<close> is \<open>os.path.exists\<close>.\<close>

definition file_path_setter ::
    "(string \<Rightarrow> bool) \<Rightarrow> string \<Rightarrow> translator \<Rightarrow> error + translator" where
  "file_path_setter path_exists fp self =
     (if path_exists fp then Inr (self\<lparr>file_path := fp\<rparr>) else Inl FileNotFoundError)"

text \<open>
  \<open>__init__\<close> (lines 16-23): the setter runs first; the cache starts as an empty
  managed dict.
\<close>

definition Translator_init ::
    "(string \<Rightarrow> bool) \<Rightarrow> string \<Rightarrow> string \<Rightarrow> string \<Rightarrow> error + translator" where
  "Translator_init path_exists fp src trgt =
     (case file_path_setter path_exists fp
             \<lparr>file_path = [], cache = Map.empty, src_lang = [], trgt_lang = [],
              logged = [], calls = []\<rparr> of
        Inl e \<Rightarrow> Inl e
      | Inr self \<Rightarrow> Inr (self\<lparr>cache := Map.empty, src_lang := src, trgt_lang := trgt\<rparr>))"

definition open_excel :: "(string \<Rightarrow> error + workbook) \<Rightarrow> translator \<Rightarrow> error + workbook" where
  "open_excel read_excel self = read_excel (file_path self)"

section \<open>Remote translator, dispatcher and cache check\<close>

text \<open>\<open>translate\<close> (lines 51-63): one request; a failure is logged and swallowed.\<close>

definition translate :: "service \<Rightarrow> string \<Rightarrow> translator \<Rightarrow> translator" where
  "translate client item self =
     (case client item (src_lang self) (trgt_lang self) of
        Inr text \<Rightarrow>
          self\<lparr>cache := (cache self)(item \<mapsto> text), calls := calls self @ [item]\<rparr>
      | Inl e \<Rightarrow>
          self\<lparr>logged := logged self @
                   [(ERROR, ''Failed with error: '' @ e),
                    (WARNING, ''Failed to translate item: '' @ item)],
               calls := calls self @ [item]\<rparr>)"

text \<open>
  \<open>translate_async\<close> (lines 65-72): one task per item; the \<open>with\<close> block returns when
  all of them are done. The tasks are run here in submission order.
\<close>

definition translate_async :: "service \<Rightarrow> string list \<Rightarrow> translator \<Rightarrow> translator" where
  "translate_async client items self = fold (translate client) items self"

text \<open>
  \<open>check_cache\<close> (line 87): \<open>list(set(items) - set(self.cache.keys()))\<close>. Python leaves
  the order of the list open; the order of first occurrence is taken here.
\<close>

definition check_cache :: "string list \<Rightarrow> translator \<Rightarrow> string list" where
  "check_cache items self = filter (\<lambda>i. cache self i = None) (remdups items)"

section \<open>Sheet processor\<close>

text \<open>
  Line 103: \<open>[header for header in df.columns if not header.isascii()]\<close>. A label that
  is not a string has no \<open>isascii\<close> and the comprehension raises.
\<close>

fun nonascii_headers :: "val list \<Rightarrow> error + string list" where
  "nonascii_headers [] = Inr []"
| "nonascii_headers (Str s # hs) =
     (case nonascii_headers hs of
        Inl e \<Rightarrow> Inl e
      | Inr r \<Rightarrow> Inr (if isascii s then r else s # r))"
| "nonascii_headers (h # hs) = Inl AttributeError"

text \<open>The lambda of lines 104-105.\<close>

definition flagged :: "val \<Rightarrow> bool" where
  "flagged x = (case x of Str s \<Rightarrow> \<not> isascii s | _ \<Rightarrow> False)"

text \<open>\<open>df.map(f)\<close> on the grid, and \<open>na_action='ignore'\<close>.\<close>

definition frame_map :: "('a \<Rightarrow> 'b) \<Rightarrow> 'a list list \<Rightarrow> 'b list list" where
  "frame_map f g = map (map f) g"

definition ignore_na :: "(val \<Rightarrow> val) \<Rightarrow> val \<Rightarrow> val" where
  "ignore_na f x = (case x of NA \<Rightarrow> NA | _ \<Rightarrow> f x)"

text \<open>\<open>df[mask]\<close>: the cells where the mask is false become missing.\<close>

definition getitem_mask :: "val list list \<Rightarrow> bool list list \<Rightarrow> val list list" where
  "getitem_mask g m = map (\<lambda>(r, mr). map (\<lambda>(x, b). if b then x else NA) (zip r mr)) (zip g m)"

text \<open>\<open>.stack()\<close> read as a sequence of values: the missing ones are dropped.\<close>

definition stack :: "val list list \<Rightarrow> val list" where
  "stack g = filter (\<lambda>x. x \<noteq> NA) (concat g)"

text \<open>\<open>df.mask(mask, other)\<close>: where the mask is true the cell comes from \<open>other\<close>.\<close>

definition mask_replace :: "val list list \<Rightarrow> bool list list \<Rightarrow> val list list \<Rightarrow> val list list" where
  "mask_replace g m other =
     map (\<lambda>(r, mr, orow). map (\<lambda>(x, b, y). if b then y else x) (zip r (zip mr orow)))
         (zip g (zip m other))"

text \<open>The strings among a list of values (the members of \<open>unique_items\<close>).\<close>

fun strings_of :: "val list \<Rightarrow> string list" where
  "strings_of [] = []"
| "strings_of (Str s # xs) = s # strings_of xs"
| "strings_of (x # xs) = strings_of xs"

text \<open>\<open>self.cache.get(x)\<close> of line 112: no default, a missing key gives \<open>None\<close>.\<close>

definition cache_get :: "translator \<Rightarrow> val \<Rightarrow> val" where
  "cache_get self x =
     (case x of Str s \<Rightarrow> (case cache self s of Some t \<Rightarrow> Str t | None \<Rightarrow> NA) | _ \<Rightarrow> NA)"

text \<open>\<open>self.cache.get(old, old)\<close> of line 118: a missing key gives the label itself.\<close>

definition cache_get_default :: "translator \<Rightarrow> val \<Rightarrow> val" where
  "cache_get_default self old =
     (case old of Str s \<Rightarrow> (case cache self s of Some t \<Rightarrow> Str t | None \<Rightarrow> old) | _ \<Rightarrow> old)"

text \<open>
  Lines 104-109 of \<open>translate_DataFrame\<close>: the distinct flagged cell values, united
  with the flagged headers, less the cache keys.
\<close>

definition items_to_translate :: "string list \<Rightarrow> DataFrame \<Rightarrow> translator \<Rightarrow> string list" where
  "items_to_translate headers df self =
     (let mask = frame_map flagged (rows df);
          unique_items = remdups (strings_of (stack (getitem_mask (rows df) mask)));
          all_items = remdups (unique_items @ remdups headers)
      in check_cache all_items self)"

text \<open>\<open>translate_DataFrame\<close> (lines 89-122).\<close>

definition translate_DataFrame ::
    "service \<Rightarrow> string \<Rightarrow> DataFrame \<Rightarrow> translator \<Rightarrow>
     error + ((string \<times> DataFrame) \<times> translator)" where
  "translate_DataFrame client key df self =
     (case nonascii_headers (columns df) of
        Inl e \<Rightarrow> Inl e
      | Inr headers \<Rightarrow>
          let mask = frame_map flagged (rows df);
              self' = translate_async client (items_to_translate headers df self) self;
              lookup_df = frame_map (ignore_na (cache_get self'))
                                    (getitem_mask (rows df) mask);
              translated_df = df\<lparr>rows := mask_replace (rows df) mask lookup_df\<rparr>;
              translated_df = translated_df\<lparr>columns := map (cache_get_default self') (columns df)\<rparr>
          in Inr ((key, translated_df), self'))"

section \<open>Workbook orchestrator\<close>

text \<open>\<open>str(n)\<close> for the count in the log line of line 138.\<close>

fun str_nat :: "nat \<Rightarrow> string" where
  "str_nat n =
     (if n < 10 then [char_of (48 + n)]
      else str_nat (n div 10) @ [char_of (48 + n mod 10)])"

declare str_nat.simps [simp del]

text \<open>
  \<open>pool.starmap\<close> (line 145): one call per task, the results in the order of the tasks;
  an exception in a task is raised again in the parent. The cache is a managed dict,
  shared by all worker processes; the tasks are run here one after the other.
\<close>

fun starmap ::
    "('a \<Rightarrow> 'b \<Rightarrow> 's \<Rightarrow> error + ('r \<times> 's)) \<Rightarrow> ('a \<times> 'b) list \<Rightarrow> 's \<Rightarrow> error + ('r list \<times> 's)" where
  "starmap f [] st = Inr ([], st)"
| "starmap f ((a, b) # xs) st =
     (case f a b st of
        Inl e \<Rightarrow> Inl e
      | Inr (r, st') \<Rightarrow>
          (case starmap f xs st' of
             Inl e \<Rightarrow> Inl e
           | Inr (rs, st'') \<Rightarrow> Inr (r # rs, st'')))"

text \<open>
  The dict comprehension of line 146: a key that comes again keeps its place and takes
  the later value.
\<close>

definition dict_of :: "('k \<times> 'v) list \<Rightarrow> ('k \<times> 'v) list" where
  "dict_of kvs = fold (\<lambda>(k, v) d. AList.update k v d) kvs []"

text \<open>
  Lines 133-139 of \<open>translate_excel\<close>: the sheet names with a non-ASCII character that
  are not cache keys are dispatched, in the parent process.
\<close>

definition translate_names :: "service \<Rightarrow> workbook \<Rightarrow> translator \<Rightarrow> translator" where
  "translate_names client dfs self =
     (let worksheet_names = filter (\<lambda>name. \<not> isascii name) (map fst dfs);
          worksheet_names_to_translate = check_cache worksheet_names self
      in if length worksheet_names_to_translate > 0
         then translate_async client worksheet_names_to_translate
                (self\<lparr>logged := logged self @
                   [(INFO, ''Translating '' @
                           str_nat (length worksheet_names_to_translate) @ '' items'')]\<rparr>)
         else self)"

text \<open>Line 141: \<open>[(self.cache.get(key, key), value) for key, value in dfs.items()]\<close>.\<close>

definition pair_names :: "translator \<Rightarrow> workbook \<Rightarrow> (string \<times> DataFrame) list" where
  "pair_names self dfs =
     map (\<lambda>(key, value). (case cache self key of Some t \<Rightarrow> t | None \<Rightarrow> key, value)) dfs"

text \<open>
  \<open>translate_excel\<close> (lines 124-152). The result is what is handed to the writer: the
  path given to \<open>pd.ExcelWriter\<close> and the sheets written, in order.
\<close>

definition translate_excel ::
    "service \<Rightarrow> (string \<Rightarrow> error + workbook) \<Rightarrow> translator \<Rightarrow>
     error + ((string \<times> workbook) \<times> translator)" where
  "translate_excel client read_excel self =
     (case open_excel read_excel self of
        Inl e \<Rightarrow> Inl e
      | Inr dfs \<Rightarrow>
          let self1 = translate_names client dfs self;
              args = pair_names self1 dfs;
              self2 = self1\<lparr>logged := logged self1 @ [(INFO, ''Creating child process...'')]\<rparr>
          in case starmap (translate_DataFrame client) args self2 of
               Inl e \<Rightarrow> Inl e
             | Inr (results, self3) \<Rightarrow>
                 Inr ((''translated_'' @ file_path self, dict_of results),
                      self3\<lparr>logged := logged self3 @
                               [(INFO, ''Excel file has been translated!'')]\<rparr>))"

section \<open>Notions of the specification\<close>

text \<open>
  The flagged items of a sheet: the strings with a non-ASCII character among its cells
  and its column labels.
\<close>

definition flagged_items :: "DataFrame \<Rightarrow> string set" where
  "flagged_items df =
     {s. \<not> isascii s \<and> (Str s \<in> set (columns df) \<or> (\<exists>r \<in> set (rows df). Str s \<in> set r))}"

text \<open>Every cache key has a non-ASCII character.\<close>

definition keys_nonascii :: "translator \<Rightarrow> bool" where
  "keys_nonascii self = (\<forall>k \<in> dom (cache self). \<not> isascii k)"

text \<open>
  Every cache entry has a key with a non-ASCII character and holds what the service
  answers for that key.
\<close>

definition cache_agrees :: "service \<Rightarrow> translator \<Rightarrow> bool" where
  "cache_agrees client self =
     (\<forall>k v. cache self k = Some v \<longrightarrow>
        \<not> isascii k \<and> client k (src_lang self) (trgt_lang self) = Inr v)"

text \<open>The file name of a path, as \<open>os.path.basename\<close> gives it.\<close>

definition basename :: "string \<Rightarrow> string" where
  "basename p = rev (takeWhile (\<lambda>c. c \<noteq> CHR ''/'') (rev p))"

section \<open>Example data\<close>

text \<open>"caf\'e" and the Japanese sheet name of the specification, as UTF-8 bytes.\<close>

definition cafe :: string where
  "cafe = ''caf'' @ [CHR 0xC3, CHR 0xA9]"

definition nihongo :: string where
  "nihongo = [CHR 0xE6, CHR 0x97, CHR 0xA5, CHR 0xE6, CHR 0x9C, CHR 0xAC, CHR 0xE8, CHR 0xAA, CHR 0x9E]"

text \<open>A translator as the constructor leaves it for the existing path \<open>book.xlsx\<close>.\<close>

definition fresh :: translator where
  "fresh = \<lparr>file_path = ''book.xlsx'', cache = Map.empty, src_lang = ''fr'',
            trgt_lang = ''en'', logged = [], calls = []\<rparr>"

text \<open>A service that fails on every request, and one that answers every request.\<close>

definition failing :: service where
  "failing = (\<lambda>text src trgt. Inl ''boom'')"

definition upper :: service where
  "upper = (\<lambda>text src trgt. Inr (''T_'' @ text))"

text \<open>A sheet with a flagged header, a flagged cell, an ASCII cell, a number and a gap.\<close>

definition words :: DataFrame where
  "words = \<lparr>columns = [Str cafe, Str ''n''], rows = [[Str cafe, Num 1], [Str ''tea'', NA]]\<rparr>"

text \<open>A translator whose cache already holds \<open>{"caf\'e": "coffee shop"}\<close>.\<close>

definition cached :: translator where
  "cached = fresh\<lparr>cache := [cafe \<mapsto> ''coffee shop'']\<rparr>"

text \<open>
  Between two states of the translator, every text handed to the service has a
  non-ASCII character.
\<close>

definition only_nonascii_sent :: "translator \<Rightarrow> translator \<Rightarrow> bool" where
  "only_nonascii_sent self self' =
     (\<exists>new. calls self' = calls self @ new \<and> (\<forall>x \<in> set new. \<not> isascii x))"

text \<open>
  A sheet \<open>df'\<close> has the shape of \<open>df\<close>, every ASCII header of \<open>df\<close> at its place and
  every cell of \<open>df\<close> that is not a flagged string at its place.
\<close>

definition ascii_kept :: "DataFrame \<Rightarrow> DataFrame \<Rightarrow> bool" where
  "ascii_kept df df' =
     (length (columns df') = length (columns df)
      \<and> (\<forall>j < length (columns df). \<forall>s. columns df ! j = Str s \<and> isascii s
            \<longrightarrow> columns df' ! j = Str s)
      \<and> length (rows df') = length (rows df)
      \<and> (\<forall>i < length (rows df). length (rows df' ! i) = length (rows df ! i)
            \<and> (\<forall>j < length (rows df ! i). \<not> flagged (rows df ! i ! j)
                  \<longrightarrow> rows df' ! i ! j = rows df ! i ! j)))"

text \<open>A workbook with a Japanese sheet name and an ASCII one.\<close>

definition book :: workbook where
  "book = [(nihongo, words), (''Sheet2'', words)]"

text \<open>A reader that finds \<open>book\<close> at every path, and a translator for a path in a directory.\<close>

definition read_book :: "string \<Rightarrow> error + workbook" where
  "read_book p = Inr book"

definition nested :: translator where
  "nested = fresh\<lparr>file_path := ''data/book.xlsx''\<rparr>"

text \<open>
  A service that answers \<open>Sheet2\<close> to every request, and a workbook of three one-cell
  sheets whose first name is Japanese and whose last name is \<open>Sheet2\<close>.
\<close>

definition collide :: service where
  "collide = (\<lambda>text src trgt. Inr ''Sheet2'')"

definition sheet_of :: "int \<Rightarrow> DataFrame" where
  "sheet_of n = \<lparr>columns = [Str ''a''], rows = [[Num n]]\<rparr>"

definition read_three :: "string \<Rightarrow> error + workbook" where
  "read_three p = Inr [(nihongo, sheet_of 1), (''Mid'', sheet_of 2), (''Sheet2'', sheet_of 3)]"

text \<open>
  A translator left by an earlier run with the service \<open>upper\<close>: its cache holds the
  answer for "caf\'e".
\<close>

definition warm :: translator where
  "warm = fresh\<lparr>cache := [cafe \<mapsto> ''T_'' @ cafe], logged := [(INFO, ''earlier run'')]\<rparr>"

text \<open>
  A sheet with ASCII content only, and a workbook in which that sheet is named \<open>Sheet2\<close>
  and is followed by a one-cell sheet with the Japanese name.
\<close>

definition plain :: DataFrame where
  "plain = \<lparr>columns = [Str ''word'', Str ''n''], rows = [[Str ''tea'', Num 1]]\<rparr>"

definition read_two :: "string \<Rightarrow> error + workbook" where
  "read_two p = Inr [(''Sheet2'', plain), (nihongo, sheet_of 2)]"

section \<open>Basic facts about the dispatcher\<close>

lemma translate_fields [simp]:
  "src_lang (translate client item self) = src_lang self"
  "trgt_lang (translate client item self) = trgt_lang self"
  "file_path (translate client item self) = file_path self"
  "calls (translate client item self) = calls self @ [item]"
  by (simp_all add: translate_def split: sum.splits)

lemma translate_cache:
  "cache (translate client item self) =
     (case client item (src_lang self) (trgt_lang self) of
        Inr text \<Rightarrow> (cache self)(item \<mapsto> text) | Inl e \<Rightarrow> cache self)"
  by (simp add: translate_def split: sum.splits)

lemma translate_async_Nil [simp]: "translate_async client [] self = self"
  by (simp add: translate_async_def)

lemma translate_async_Cons [simp]:
  "translate_async client (x # xs) self = translate_async client xs (translate client x self)"
  by (simp add: translate_async_def)

lemma translate_async_append:
  "translate_async client (xs @ ys) self =
     translate_async client ys (translate_async client xs self)"
  by (simp add: translate_async_def)

lemma translate_async_fields [simp]:
  "src_lang (translate_async client xs self) = src_lang self"
  "trgt_lang (translate_async client xs self) = trgt_lang self"
  "file_path (translate_async client xs self) = file_path self"
  "calls (translate_async client xs self) = calls self @ xs"
  by (induction xs arbitrary: self; simp)+

text \<open>
  The cache after a dispatch, key by key. It does not depend on the order in which the
  requests complete.
\<close>

lemma translate_async_cache:
  "cache (translate_async client xs self) k =
     (if k \<in> set xs
      then (case client k (src_lang self) (trgt_lang self) of
              Inr text \<Rightarrow> Some text | Inl e \<Rightarrow> cache self k)
      else cache self k)"
  by (induction xs arbitrary: self) (auto simp: translate_cache split: sum.splits)

section \<open>Basic facts about the sheet processor\<close>

lemma flagged_Str [simp]: "flagged (Str s) = (\<not> isascii s)"
  by (simp add: flagged_def)

lemma flagged_other [simp]: "\<not> flagged (Num n)" "\<not> flagged NA"
  by (simp_all add: flagged_def)

text \<open>Masking, looking up and masking back is one pass over the cells.\<close>

lemma row_replace:
  "map (\<lambda>(x, b, y). if b then y else x)
       (zip r (zip (map flagged r)
                   (map (ignore_na f) (map (\<lambda>(x, b). if b then x else NA) (zip r (map flagged r))))))
   = map (\<lambda>x. if flagged x then f x else x) r"
  by (induction r) (auto simp: ignore_na_def flagged_def split: val.splits)

lemma grid_replace:
  "mask_replace g (frame_map flagged g)
     (frame_map (ignore_na f) (getitem_mask g (frame_map flagged g)))
   = map (map (\<lambda>x. if flagged x then f x else x)) g"
  by (induction g)
     (simp_all add: mask_replace_def frame_map_def getitem_mask_def row_replace del: map_map)

lemma strings_of_append [simp]: "strings_of (xs @ ys) = strings_of xs @ strings_of ys"
  by (induction xs rule: strings_of.induct) simp_all

lemma row_stack:
  "set (strings_of (filter (\<lambda>x. x \<noteq> NA)
          (map (\<lambda>(x, b). if b then x else NA) (zip r (map flagged r)))))
   = {s. Str s \<in> set r \<and> \<not> isascii s}"
proof (induction r)
  case Nil
  then show ?case by simp
next
  case (Cons x r)
  then show ?case by (cases x) auto
qed

lemma grid_stack:
  "set (strings_of (stack (getitem_mask g (frame_map flagged g))))
   = {s. \<not> isascii s \<and> (\<exists>r \<in> set g. Str s \<in> set r)}"
proof (induction g)
  case Nil
  then show ?case by (simp add: stack_def getitem_mask_def frame_map_def)
next
  case (Cons r g)
  have "set (strings_of (stack (getitem_mask (r # g) (frame_map flagged (r # g)))))
        = {s. Str s \<in> set r \<and> \<not> isascii s}
          \<union> set (strings_of (stack (getitem_mask g (frame_map flagged g))))"
    using row_stack [of r] by (simp add: stack_def getitem_mask_def frame_map_def)
  with Cons show ?case by auto
qed

lemma nonascii_headers_Inr:
  "nonascii_headers cols = Inr hs \<Longrightarrow>
     set hs = {s. \<not> isascii s \<and> Str s \<in> set cols} \<and> (\<forall>h \<in> set cols. \<exists>s. h = Str s)"
proof (induction cols arbitrary: hs)
  case Nil
  then show ?case by simp
next
  case (Cons h cols)
  show ?case
  proof (cases h)
    case (Str s)
    with Cons show ?thesis by (auto split: sum.splits if_splits)
  next
    case (Num n)
    with Cons.prems show ?thesis by simp
  next
    case NA
    with Cons.prems show ?thesis by simp
  qed
qed

lemma check_cache_set [simp]:
  "set (check_cache items self) = set items - dom (cache self)"
  by (auto simp: check_cache_def)

lemma check_cache_distinct [simp]: "distinct (check_cache items self)"
  by (simp add: check_cache_def)

lemma items_to_translate_set:
  assumes "nonascii_headers (columns df) = Inr hs"
  shows "set (items_to_translate hs df self) = flagged_items df - dom (cache self)"
  using nonascii_headers_Inr [OF assms]
  by (auto simp: items_to_translate_def grid_stack flagged_items_def)

lemma items_to_translate_distinct [simp]: "distinct (items_to_translate hs df self)"
  by (simp add: items_to_translate_def)

text \<open>What \<open>translate_DataFrame\<close> returns when it returns.\<close>

lemma translate_DataFrame_Inr:
  assumes "translate_DataFrame client key df self = Inr ((key', df'), self')"
  shows "\<exists>hs. nonascii_headers (columns df) = Inr hs
              \<and> self' = translate_async client (items_to_translate hs df self) self"
    and "key' = key"
    and "rows df' = map (map (\<lambda>x. if flagged x then cache_get self' x else x)) (rows df)"
    and "columns df' = map (cache_get_default self') (columns df)"
  using assms
  by (auto simp: translate_DataFrame_def Let_def grid_replace split: sum.splits)

section \<open>Failure containment in the remote translator\<close>

text \<open>
  C4: when the service call made by \<open>translate\<close> raises, the error and the offending
  item are handed to the logger, the cache is left exactly as it was (so the item does
  not become a key), and \<open>translate\<close> returns normally; a dispatch over a list that
  contains the item goes on with the items after it.
\<close>

theorem translate_failure_contained:
  assumes "client item (src_lang self) (trgt_lang self) = Inl e"
  shows "translate client item self =
           self\<lparr>logged := logged self @
                    [(ERROR, ''Failed with error: '' @ e),
                     (WARNING, ''Failed to translate item: '' @ item)],
                calls := calls self @ [item]\<rparr>
         \<and> cache (translate client item self) = cache self
         \<and> translate_async client (xs @ item # ys) self =
             translate_async client ys (translate client item (translate_async client xs self))"
  using assms by (simp add: translate_def translate_async_append)

theorem translate_failure_contained_witness:
  "failing cafe (src_lang fresh) (trgt_lang fresh) = Inl ''boom''
   \<and> logged (translate failing cafe fresh) =
       [(ERROR, ''Failed with error: boom''),
        (WARNING, ''Failed to translate item: '' @ cafe)]
   \<and> cache (translate failing cafe fresh) cafe = None"
proof -
  have h: "failing cafe (src_lang fresh) (trgt_lang fresh) = Inl ''boom''"
    by (simp add: failing_def)
  show ?thesis
    using h translate_failure_contained [of failing cafe fresh "''boom''" "[]" "[]"]
    by (simp add: fresh_def)
qed

section \<open>Construction fails fast on a missing path\<close>

text \<open>
  C7: for a path that \<open>os.path.exists\<close> rejects, the \<open>file_path\<close> setter and with it
  the constructor raise \<open>FileNotFoundError\<close>, and a run that constructs the translator
  and then calls \<open>translate_excel\<close> ends with that error whatever the reader and the
  service are; for a path that exists, the setter stores it and the constructor returns
  a translator holding the path, with an empty cache and nothing sent or logged.
\<close>

theorem Translator_file_path_checked:
  "(\<not> path_exists fp \<longrightarrow>
      file_path_setter path_exists fp self = Inl FileNotFoundError
      \<and> Translator_init path_exists fp src trgt = Inl FileNotFoundError
      \<and> (case Translator_init path_exists fp src trgt of
            Inl e \<Rightarrow> Inl e
          | Inr t \<Rightarrow> translate_excel client read_excel t) = Inl FileNotFoundError)
   \<and> (path_exists fp \<longrightarrow>
      file_path_setter path_exists fp self = Inr (self\<lparr>file_path := fp\<rparr>)
      \<and> (\<exists>t. Translator_init path_exists fp src trgt = Inr t \<and> file_path t = fp
              \<and> cache t = Map.empty \<and> calls t = [] \<and> logged t = []))"
  by (simp add: file_path_setter_def Translator_init_def)

theorem Translator_file_path_checked_witness:
  "Translator_init (\<lambda>p. p = ''book.xlsx'') ''gone.xlsx'' ''fr'' ''en'' = Inl FileNotFoundError
   \<and> Translator_init (\<lambda>p. p = ''book.xlsx'') ''book.xlsx'' ''fr'' ''en'' = Inr fresh"
proof -
  have a: "\<not> (\<lambda>p. p = ''book.xlsx'') ''gone.xlsx''" by simp
  have b: "(\<lambda>p. p = ''book.xlsx'') ''book.xlsx''" by simp
  from a Translator_file_path_checked [of "\<lambda>p. p = ''book.xlsx''" "''gone.xlsx''" fresh "''fr''" "''en''"]
  have "Translator_init (\<lambda>p. p = ''book.xlsx'') ''gone.xlsx'' ''fr'' ''en'' = Inl FileNotFoundError"
    by simp
  moreover have "Translator_init (\<lambda>p. p = ''book.xlsx'') ''book.xlsx'' ''fr'' ''en'' = Inr fresh"
    using b by (simp add: Translator_init_def file_path_setter_def fresh_def)
  ultimately show ?thesis by simp
qed

lemma isascii_simps [simp]:
  "isascii [] = True"
  "isascii (c # cs) = ((of_char c :: nat) < 128 \<and> isascii cs)"
  by (simp_all add: isascii_def)

lemma cache_get_Str: "cache_get self (Str s) = (case cache self s of Some t \<Rightarrow> Str t | None \<Rightarrow> NA)"
  by (simp add: cache_get_def)

lemma cache_get_default_Str:
  "cache_get_default self (Str s) = (case cache self s of Some t \<Rightarrow> Str t | None \<Rightarrow> Str s)"
  by (simp add: cache_get_default_def)

lemma translate_DataFrame_shape:
  assumes "translate_DataFrame client key df self = Inr ((key', df'), self')"
  shows "length (columns df') = length (columns df)"
    and "length (rows df') = length (rows df)"
    and "i < length (rows df) \<Longrightarrow> length (rows df' ! i) = length (rows df ! i)"
  using translate_DataFrame_Inr(3,4) [OF assms] by simp_all

lemma translate_DataFrame_cell:
  assumes "translate_DataFrame client key df self = Inr ((key', df'), self')"
    and "i < length (rows df)" "j < length (rows df ! i)"
  shows "rows df' ! i ! j =
           (if flagged (rows df ! i ! j) then cache_get self' (rows df ! i ! j) else rows df ! i ! j)"
  using translate_DataFrame_Inr(3) [OF assms(1)] assms(2,3) by simp

lemma translate_DataFrame_header:
  assumes "translate_DataFrame client key df self = Inr ((key', df'), self')"
    and "j < length (columns df)"
  shows "columns df' ! j = cache_get_default self' (columns df ! j)"
  using translate_DataFrame_Inr(4) [OF assms(1)] assms(2) by simp

section \<open>Fallback of a failed translation\<close>

text \<open>
  A header whose translation is missing from the cache after the dispatch keeps its
  name; a flagged cell whose translation is missing becomes a missing value.
\<close>

lemma failed_header_kept:
  assumes "translate_DataFrame client key df self = Inr ((key', df'), self')"
    and "j < length (columns df)" "columns df ! j = Str s" "cache self' s = None"
  shows "columns df' ! j = Str s"
  using translate_DataFrame_header [OF assms(1,2)] assms(3,4)
  by (simp add: cache_get_default_Str)

lemma failed_cell_lost:
  assumes "translate_DataFrame client key df self = Inr ((key', df'), self')"
    and "i < length (rows df)" "j < length (rows df ! i)"
    and "rows df ! i ! j = Str s" "\<not> isascii s" "cache self' s = None"
  shows "rows df' ! i ! j = NA"
  using translate_DataFrame_cell [OF assms(1,2,3)] assms(4,5,6)
  by (simp add: cache_get_Str)

text \<open>
  C1: the fallback law asks that a flagged cell whose translation failed keeps its
  original value. On the sheet \<open>words\<close> with a service that fails, the flagged header
  keeps its name, but the flagged cell in the first row comes out as a missing value.
\<close>

theorem failed_cell_becomes_missing:
  "translate_DataFrame failing ''Sheet1'' words fresh =
     Inr ((''Sheet1'', \<lparr>columns = [Str cafe, Str ''n''], rows = [[NA, Num 1], [Str ''tea'', NA]]\<rparr>),
          fresh\<lparr>logged := [(ERROR, ''Failed with error: boom''),
                             (WARNING, ''Failed to translate item: '' @ cafe)],
                calls := [cafe]\<rparr>)"
  by (simp add: translate_DataFrame_def items_to_translate_def words_def fresh_def failing_def
      cafe_def frame_map_def getitem_mask_def stack_def check_cache_def mask_replace_def
      ignore_na_def cache_get_def cache_get_default_def translate_def)

section \<open>Dispatch of the uncached items\<close>

text \<open>
  C2: when \<open>translate_DataFrame\<close> returns, the requests it has sent are, each once, the
  flagged items of the sheet that were not cache keys; a flagged cell whose text was a
  cache key is not among them and holds the cached value in the output.
\<close>

theorem translate_DataFrame_dispatches_uncached:
  assumes "translate_DataFrame client key df self = Inr ((key', df'), self')"
  shows "\<exists>new. calls self' = calls self @ new \<and> distinct new
           \<and> set new = flagged_items df - dom (cache self)
           \<and> (\<forall>i < length (rows df). \<forall>j < length (rows df ! i). \<forall>s v.
                 rows df ! i ! j = Str s \<and> \<not> isascii s \<and> cache self s = Some v
                 \<longrightarrow> s \<notin> set new \<and> rows df' ! i ! j = Str v)"
proof -
  from translate_DataFrame_Inr(1) [OF assms] obtain hs where
    hs: "nonascii_headers (columns df) = Inr hs" and
    self': "self' = translate_async client (items_to_translate hs df self) self"
    by blast
  let ?new = "items_to_translate hs df self"
  have new: "set ?new = flagged_items df - dom (cache self)"
    by (rule items_to_translate_set [OF hs])
  have cell: "s \<notin> set ?new \<and> rows df' ! i ! j = Str v"
    if "i < length (rows df)" "j < length (rows df ! i)" "rows df ! i ! j = Str s"
      "\<not> isascii s" "cache self s = Some v" for i j s v
  proof -
    from that(5) new have out: "s \<notin> set ?new" by auto
    then have "cache self' s = Some v"
      using that(5) by (simp add: self' translate_async_cache)
    then show ?thesis
      using out translate_DataFrame_cell [OF assms that(1,2)] that(3,4)
      by (simp add: cache_get_Str)
  qed
  have "calls self' = calls self @ ?new" by (simp add: self')
  with new cell show ?thesis
    by (intro exI [of _ ?new]) (simp; blast)
qed

theorem translate_DataFrame_dispatches_uncached_witness:
  "translate_DataFrame failing ''Sheet1'' words cached =
     Inr ((''Sheet1'', \<lparr>columns = [Str ''coffee shop'', Str ''n''],
                        rows = [[Str ''coffee shop'', Num 1], [Str ''tea'', NA]]\<rparr>), cached)
   \<and> (\<exists>new. calls cached = calls cached @ new \<and> set new = flagged_items words - dom (cache cached))"
proof -
  have h: "translate_DataFrame failing ''Sheet1'' words cached =
     Inr ((''Sheet1'', \<lparr>columns = [Str ''coffee shop'', Str ''n''],
                        rows = [[Str ''coffee shop'', Num 1], [Str ''tea'', NA]]\<rparr>), cached)"
    by (simp add: translate_DataFrame_def items_to_translate_def words_def fresh_def cached_def
      cafe_def frame_map_def getitem_mask_def stack_def check_cache_def mask_replace_def
      ignore_na_def cache_get_def cache_get_default_def)
  from translate_DataFrame_dispatches_uncached [OF h] h show ?thesis by blast
qed

section \<open>Invariants of a run\<close>

lemma keys_nonascii_logged [simp]: "keys_nonascii (self\<lparr>logged := l\<rparr>) = keys_nonascii self"
  by (simp add: keys_nonascii_def)

lemma keys_nonascii_translate_async:
  assumes "keys_nonascii self" "\<forall>x \<in> set xs. \<not> isascii x"
  shows "keys_nonascii (translate_async client xs self)"
  unfolding keys_nonascii_def
proof
  fix k assume "k \<in> dom (cache (translate_async client xs self))"
  then obtain v where "cache (translate_async client xs self) k = Some v" by blast
  then have "k \<in> set xs \<or> cache self k = Some v"
    by (auto simp: translate_async_cache split: if_splits sum.splits)
  with assms show "\<not> isascii k" by (auto simp: keys_nonascii_def)
qed

lemma flagged_items_nonascii: "s \<in> flagged_items df \<Longrightarrow> \<not> isascii s"
  by (simp add: flagged_items_def)

lemma translate_names_eq:
  "\<exists>l. translate_names client dfs self =
     translate_async client (check_cache (filter (\<lambda>name. \<not> isascii name) (map fst dfs)) self)
       (self\<lparr>logged := logged self @ l\<rparr>)"
proof (cases "check_cache (filter (\<lambda>name. \<not> isascii name) (map fst dfs)) self = []")
  case True
  then show ?thesis by (intro exI [of _ "[]"]) (simp add: translate_names_def)
next
  case False
  then show ?thesis by (simp add: translate_names_def Let_def) blast
qed

lemma keys_nonascii_translate_names:
  assumes "keys_nonascii self"
  shows "keys_nonascii (translate_names client dfs self)"
proof -
  obtain l where "translate_names client dfs self =
     translate_async client (check_cache (filter (\<lambda>name. \<not> isascii name) (map fst dfs)) self)
       (self\<lparr>logged := logged self @ l\<rparr>)"
    using translate_names_eq by blast
  then show ?thesis
    using assms by (simp add: keys_nonascii_translate_async)
qed

lemma items_to_translate_nonascii:
  assumes "nonascii_headers (columns df) = Inr hs"
  shows "\<forall>x \<in> set (items_to_translate hs df self). \<not> isascii x"
  using items_to_translate_set [OF assms] by (auto dest: flagged_items_nonascii)

lemma keys_nonascii_translate_DataFrame:
  assumes "keys_nonascii self"
    and "translate_DataFrame client key df self = Inr ((key', df'), self')"
  shows "keys_nonascii self'"
proof -
  from translate_DataFrame_Inr(1) [OF assms(2)] obtain hs where
    hs: "nonascii_headers (columns df) = Inr hs" and
    self': "self' = translate_async client (items_to_translate hs df self) self"
    by blast
  show ?thesis
    unfolding self'
    using assms(1) items_to_translate_nonascii [OF hs] by (rule keys_nonascii_translate_async)
qed

text \<open>Only strings with a non-ASCII character are sent.\<close>

lemma only_nonascii_sent_refl [simp]: "only_nonascii_sent self self"
  by (simp add: only_nonascii_sent_def)

lemma only_nonascii_sent_trans:
  "only_nonascii_sent a b \<Longrightarrow> only_nonascii_sent b c \<Longrightarrow> only_nonascii_sent a c"
  by (fastforce simp: only_nonascii_sent_def)

lemma only_nonascii_sent_logged [simp]:
  "only_nonascii_sent a (b\<lparr>logged := l\<rparr>) = only_nonascii_sent a b"
  "only_nonascii_sent (a\<lparr>logged := l\<rparr>) b = only_nonascii_sent a b"
  by (simp_all add: only_nonascii_sent_def)

lemma only_nonascii_sent_translate_async:
  "\<forall>x \<in> set xs. \<not> isascii x \<Longrightarrow> only_nonascii_sent self (translate_async client xs self)"
  by (simp add: only_nonascii_sent_def)

lemma only_nonascii_sent_translate_names:
  "only_nonascii_sent self (translate_names client dfs self)"
proof -
  obtain l where eq: "translate_names client dfs self =
     translate_async client (check_cache (filter (\<lambda>name. \<not> isascii name) (map fst dfs)) self)
       (self\<lparr>logged := logged self @ l\<rparr>)"
    using translate_names_eq by blast
  have "only_nonascii_sent (self\<lparr>logged := logged self @ l\<rparr>) (translate_names client dfs self)"
    unfolding eq by (rule only_nonascii_sent_translate_async) simp
  then show ?thesis by simp
qed

lemma only_nonascii_sent_translate_DataFrame:
  assumes "translate_DataFrame client key df self = Inr ((key', df'), self')"
  shows "only_nonascii_sent self self'"
proof -
  from translate_DataFrame_Inr(1) [OF assms] obtain hs where
    hs: "nonascii_headers (columns df) = Inr hs" and
    self': "self' = translate_async client (items_to_translate hs df self) self"
    by blast
  show ?thesis
    unfolding self'
    using items_to_translate_nonascii [OF hs] by (rule only_nonascii_sent_translate_async)
qed

lemma ascii_kept_translate_DataFrame:
  assumes "keys_nonascii self"
    and run: "translate_DataFrame client key df self = Inr ((key', df'), self')"
  shows "ascii_kept df df'"
proof -
  have inv: "keys_nonascii self'"
    using assms by (rule keys_nonascii_translate_DataFrame)
  have header: "columns df' ! j = Str s"
    if "j < length (columns df)" "columns df ! j = Str s" "isascii s" for j s
  proof -
    from inv that(3) have "cache self' s = None"
      by (auto simp: keys_nonascii_def)
    with translate_DataFrame_header [OF run that(1)] that(2) show ?thesis
      by (simp add: cache_get_default_Str)
  qed
  show ?thesis
    unfolding ascii_kept_def
    using translate_DataFrame_shape [OF run] translate_DataFrame_cell [OF run] header
    by simp
qed

lemma starmap_invariant:
  assumes step: "\<And>a b s r s'. P s \<Longrightarrow> f a b s = Inr (r, s') \<Longrightarrow> P s'"
    and "P st" and "starmap f xs st = Inr (rs, st')"
  shows "P st' \<and> length rs = length xs
         \<and> (\<forall>i < length xs. \<exists>s s'. P s \<and> f (fst (xs ! i)) (snd (xs ! i)) s = Inr (rs ! i, s'))"
  using assms(2,3)
proof (induction xs arbitrary: st rs)
  case Nil
  then show ?case by simp
next
  case (Cons x xs)
  obtain a b where x: "x = (a, b)" by (cases x)
  from Cons.prems(2) obtain r s1 rs1 where
    r: "f a b st = Inr (r, s1)" and rest: "starmap f xs s1 = Inr (rs1, st')" and rs: "rs = r # rs1"
    by (auto simp: x split: sum.splits prod.splits)
  have P1: "P s1" using step [OF Cons.prems(1) r] .
  from Cons.IH [OF P1 rest] have
    IH: "P st'" "length rs1 = length xs"
        "\<forall>i < length xs. \<exists>s s'. P s \<and> f (fst (xs ! i)) (snd (xs ! i)) s = Inr (rs1 ! i, s')"
    by simp_all
  have "\<exists>s s'. P s \<and> f (fst ((x # xs) ! i)) (snd ((x # xs) ! i)) s = Inr (rs ! i, s')"
    if "i < length (x # xs)" for i
  proof (cases i)
    case 0
    then show ?thesis using Cons.prems(1) r by (auto simp: x rs)
  next
    case (Suc n)
    then show ?thesis using that IH(3) by (simp add: rs)
  qed
  with IH show ?case by (simp add: rs)
qed

lemma translate_excel_Inr:
  assumes "translate_excel client read_excel self = Inr ((path, out), self')"
  shows "\<exists>dfs results self3.
           read_excel (file_path self) = Inr dfs
           \<and> starmap (translate_DataFrame client)
                (pair_names (translate_names client dfs self) dfs)
                ((translate_names client dfs self)
                   \<lparr>logged := logged (translate_names client dfs self) @
                              [(INFO, ''Creating child process...'')]\<rparr>) = Inr (results, self3)
           \<and> path = ''translated_'' @ file_path self \<and> out = dict_of results
           \<and> self' = self3\<lparr>logged := logged self3 @ [(INFO, ''Excel file has been translated!'')]\<rparr>"
  using assms
  by (auto simp: translate_excel_def open_excel_def Let_def split: sum.splits prod.splits)

text \<open>The tasks of a run that returns, one by one.\<close>

lemma translate_excel_tasks:
  assumes inv: "keys_nonascii self"
    and run: "translate_excel client read_excel self = Inr ((path, out), self')"
  shows "\<exists>dfs results.
           read_excel (file_path self) = Inr dfs
           \<and> path = ''translated_'' @ file_path self \<and> out = dict_of results
           \<and> length results = length dfs
           \<and> map fst results = map fst (pair_names (translate_names client dfs self) dfs)
           \<and> keys_nonascii self' \<and> only_nonascii_sent self self'
           \<and> (\<forall>i < length dfs. ascii_kept (snd (dfs ! i)) (snd (results ! i)))"
proof -
  from translate_excel_Inr [OF run] obtain dfs results self3 where
    rd: "read_excel (file_path self) = Inr dfs"
    and sm: "starmap (translate_DataFrame client)
                (pair_names (translate_names client dfs self) dfs)
                ((translate_names client dfs self)
                   \<lparr>logged := logged (translate_names client dfs self) @
                              [(INFO, ''Creating child process...'')]\<rparr>) = Inr (results, self3)"
    and path: "path = ''translated_'' @ file_path self" and out: "out = dict_of results"
    and self': "self' = self3\<lparr>logged := logged self3 @ [(INFO, ''Excel file has been translated!'')]\<rparr>"
    by blast
  let ?P = "\<lambda>s. keys_nonascii s \<and> only_nonascii_sent self s"
  let ?args = "pair_names (translate_names client dfs self) dfs"
  have step: "?P s'" if "?P s" "translate_DataFrame client a b s = Inr (r, s')" for a b s r s'
    using that keys_nonascii_translate_DataFrame [of s client a b "fst r" "snd r" s']
      only_nonascii_sent_translate_DataFrame [of client a b s "fst r" "snd r" s']
    by (auto intro: only_nonascii_sent_trans)
  have start: "?P ((translate_names client dfs self)
                   \<lparr>logged := logged (translate_names client dfs self) @
                              [(INFO, ''Creating child process...'')]\<rparr>)"
    using keys_nonascii_translate_names [OF inv] only_nonascii_sent_translate_names by simp
  have "?P self3 \<and> length results = length ?args
        \<and> (\<forall>i < length ?args. \<exists>s s'. ?P s \<and>
         translate_DataFrame client (fst (?args ! i)) (snd (?args ! i)) s = Inr (results ! i, s'))"
  proof (rule starmap_invariant [where f = "translate_DataFrame client" and P = ?P])
    fix a b s r s'
    assume "?P s" "translate_DataFrame client a b s = Inr (r, s')"
    then show "?P s'" by (rule step)
  next
    show "?P ((translate_names client dfs self)
                   \<lparr>logged := logged (translate_names client dfs self) @
                              [(INFO, ''Creating child process...'')]\<rparr>)"
      by (rule start)
  next
    show "starmap (translate_DataFrame client) ?args
                ((translate_names client dfs self)
                   \<lparr>logged := logged (translate_names client dfs self) @
                              [(INFO, ''Creating child process...'')]\<rparr>) = Inr (results, self3)"
      by (rule sm)
  qed
  then have fin: "?P self3" and len: "length results = length ?args"
    and each: "\<forall>i < length ?args. \<exists>s s'. ?P s \<and>
         translate_DataFrame client (fst (?args ! i)) (snd (?args ! i)) s = Inr (results ! i, s')"
    by blast+
  have len': "length ?args = length dfs" by (simp add: pair_names_def)
  have snd_args: "snd (?args ! i) = snd (dfs ! i)" if "i < length dfs" for i
    using that by (simp add: pair_names_def split: prod.splits)
  have task: "fst (results ! i) = fst (?args ! i) \<and> ascii_kept (snd (dfs ! i)) (snd (results ! i))"
    if i: "i < length dfs" for i
  proof -
    from each i len' obtain s s' where s: "keys_nonascii s"
      and t: "translate_DataFrame client (fst (?args ! i)) (snd (?args ! i)) s
                = Inr ((fst (results ! i), snd (results ! i)), s')"
      by auto
    from translate_DataFrame_Inr(2) [OF t] ascii_kept_translate_DataFrame [OF s t] snd_args [OF i]
    show ?thesis by simp
  qed
  have "map fst results = map fst ?args"
    using len len' task by (auto intro: nth_equalityI)
  with rd path out len len' fin task self' show ?thesis
    by (intro exI [of _ dfs] exI [of _ results]) simp
qed

lemmas run_defs = translate_excel_def open_excel_def translate_names_def pair_names_def
  translate_DataFrame_def items_to_translate_def frame_map_def getitem_mask_def stack_def
  check_cache_def mask_replace_def ignore_na_def cache_get_def cache_get_default_def
  translate_def dict_of_def

lemma book_run:
  "\<exists>out self'. translate_excel upper (\<lambda>p. Inr book) fresh = Inr ((''translated_book.xlsx'', out), self')"
  by (simp add: run_defs book_def words_def fresh_def upper_def cafe_def nihongo_def)


lemma update_fresh:
  "k \<notin> fst ` set al \<Longrightarrow> AList.update k v al = al @ [(k, v)]"
  by (induction al) auto

lemma fold_update_distinct:
  "distinct (map fst (acc @ kvs)) \<Longrightarrow>
     fold (\<lambda>(k, v) d. AList.update k v d) kvs acc = acc @ kvs"
proof (induction kvs arbitrary: acc)
  case Nil
  then show ?case by simp
next
  case (Cons kv kvs)
  obtain k v where kv: "kv = (k, v)" by (cases kv)
  from Cons.prems have "k \<notin> fst ` set acc" by (auto simp: kv)
  then have "AList.update k v acc = acc @ [(k, v)]" by (rule update_fresh)
  with Cons.IH [of "acc @ [(k, v)]"] Cons.prems show ?case by (simp add: kv)
qed

lemma dict_of_distinct: "distinct (map fst kvs) \<Longrightarrow> dict_of kvs = kvs"
  using fold_update_distinct [of "[]" kvs] by (simp add: dict_of_def)

lemma fold_update_keys:
  "fst ` set (fold (\<lambda>(k, v) d. AList.update k v d) kvs acc) = fst ` set acc \<union> fst ` set kvs"
  by (induction kvs arbitrary: acc) (auto simp: dom_update split: prod.splits)

lemma dict_of_keys: "fst ` set (dict_of kvs) = fst ` set kvs"
  by (simp add: dict_of_def fold_update_keys)

lemma pair_names_ascii:
  assumes "keys_nonascii self" "i < length dfs" "isascii (fst (dfs ! i))"
  shows "fst (pair_names self dfs ! i) = fst (dfs ! i)"
proof -
  from assms(1,3) have "cache self (fst (dfs ! i)) = None"
    by (auto simp: keys_nonascii_def)
  with assms(2) show ?thesis
    by (cases "dfs ! i") (simp add: pair_names_def)
qed


section \<open>Only non-ASCII keys enter the cache\<close>

text \<open>
  C10: the cache of a new translator is empty, and dispatching the sheet names, a call of
  \<open>translate_DataFrame\<close> and a whole run of \<open>translate_excel\<close> send only texts with a
  non-ASCII character to the service and keep the invariant that every cache key has a
  non-ASCII character. Under that invariant the rename of line 118, though it looks
  every column label up, leaves every ASCII header as it is.
\<close>

theorem cache_keys_nonascii:
  "(Translator_init path_exists fp src trgt = Inr t \<longrightarrow> keys_nonascii t)
   \<and> (keys_nonascii self \<longrightarrow> keys_nonascii (translate_names client dfs self))
   \<and> (keys_nonascii self \<and> translate_DataFrame client key df self = Inr ((key', df'), self')
        \<longrightarrow> only_nonascii_sent self self' \<and> keys_nonascii self'
            \<and> (\<forall>j < length (columns df). \<forall>s. columns df ! j = Str s \<and> isascii s
                  \<longrightarrow> columns df' ! j = Str s))
   \<and> (keys_nonascii self \<and> translate_excel client read_excel self = Inr ((path, out), self'')
        \<longrightarrow> only_nonascii_sent self self'' \<and> keys_nonascii self'')"
proof (intro conjI impI)
  assume "Translator_init path_exists fp src trgt = Inr t"
  then show "keys_nonascii t"
    by (auto simp: Translator_init_def file_path_setter_def keys_nonascii_def split: if_splits)
next
  assume "keys_nonascii self"
  then show "keys_nonascii (translate_names client dfs self)"
    by (rule keys_nonascii_translate_names)
next
  assume a: "keys_nonascii self \<and> translate_DataFrame client key df self = Inr ((key', df'), self')"
  then show "only_nonascii_sent self self'"
    by (auto intro: only_nonascii_sent_translate_DataFrame)
  from a show "keys_nonascii self'"
    by (auto intro: keys_nonascii_translate_DataFrame)
  from a have "ascii_kept df df'"
    by (auto intro: ascii_kept_translate_DataFrame)
  then show "\<forall>j < length (columns df). \<forall>s. columns df ! j = Str s \<and> isascii s
                  \<longrightarrow> columns df' ! j = Str s"
    by (simp add: ascii_kept_def)
next
  assume a: "keys_nonascii self \<and> translate_excel client read_excel self = Inr ((path, out), self'')"
  then have inv: "keys_nonascii self"
    and run: "translate_excel client read_excel self = Inr ((path, out), self'')"
    by simp_all
  from translate_excel_tasks [OF inv run]
  show "only_nonascii_sent self self''" and "keys_nonascii self''" by blast+
qed

theorem cache_keys_nonascii_witness:
  "Translator_init (\<lambda>p. p = ''book.xlsx'') ''book.xlsx'' ''fr'' ''en'' = Inr fresh
   \<and> keys_nonascii fresh
   \<and> (\<exists>out self'. translate_excel upper (\<lambda>p. Inr book) fresh
                      = Inr ((''translated_book.xlsx'', out), self')
         \<and> only_nonascii_sent fresh self' \<and> keys_nonascii self')"
proof -
  have init: "Translator_init (\<lambda>p. p = ''book.xlsx'') ''book.xlsx'' ''fr'' ''en'' = Inr fresh"
    by (simp add: Translator_init_def file_path_setter_def fresh_def)
  obtain out self' where
    run: "translate_excel upper (\<lambda>p. Inr book) fresh = Inr ((''translated_book.xlsx'', out), self')"
    using book_run by blast
  from init cache_keys_nonascii [of "\<lambda>p. p = ''book.xlsx''" "''book.xlsx''" "''fr''" "''en''" fresh]
  have k: "keys_nonascii fresh" by blast
  from k run cache_keys_nonascii [of _ _ _ _ _ fresh upper _ _ _ _ _ _ "\<lambda>p. Inr book"
      "''translated_book.xlsx''" out self']
  have "only_nonascii_sent fresh self' \<and> keys_nonascii self'" by blast
  with init k run show ?thesis by blast
qed

section \<open>ASCII items are left alone\<close>

text \<open>
  In a run of \<open>translate_excel\<close> that starts with only non-ASCII cache keys (as a new
  translator does) and returns, every text sent to the service has a non-ASCII
  character; the sheets written are the dict built from one result per loaded sheet, in
  order; a sheet with an ASCII name keeps that name, which is a name in the written
  workbook; and in every result the ASCII headers and the cells that are not flagged
  strings (ASCII strings, numbers, gaps) are those of the loaded sheet, place by place.
  When the result names are pairwise distinct the written workbook is the result list.
\<close>

lemma ascii_kept_in_results:
  assumes "keys_nonascii self"
    and "translate_excel client read_excel self = Inr ((path, out), self')"
  shows "\<exists>dfs results.
           read_excel (file_path self) = Inr dfs \<and> out = dict_of results
           \<and> length results = length dfs
           \<and> only_nonascii_sent self self'
           \<and> (\<forall>i < length dfs.
                 (isascii (fst (dfs ! i)) \<longrightarrow> fst (results ! i) = fst (dfs ! i)
                                                \<and> fst (dfs ! i) \<in> fst ` set out)
                 \<and> ascii_kept (snd (dfs ! i)) (snd (results ! i)))
           \<and> (distinct (map fst results) \<longrightarrow> out = results)"
proof -
  from translate_excel_tasks [OF assms] obtain dfs results where
    rd: "read_excel (file_path self) = Inr dfs" and out: "out = dict_of results"
    and len: "length results = length dfs"
    and names: "map fst results = map fst (pair_names (translate_names client dfs self) dfs)"
    and sent: "only_nonascii_sent self self'"
    and kept: "\<forall>i < length dfs. ascii_kept (snd (dfs ! i)) (snd (results ! i))"
    by blast
  have inv1: "keys_nonascii (translate_names client dfs self)"
    using assms(1) by (rule keys_nonascii_translate_names)
  have name: "fst (results ! i) = fst (dfs ! i) \<and> fst (dfs ! i) \<in> fst ` set out"
    if i: "i < length dfs" and asc: "isascii (fst (dfs ! i))" for i
  proof -
    have "fst (results ! i) = map fst results ! i"
      using i len by simp
    also have "\<dots> = fst (pair_names (translate_names client dfs self) dfs ! i)"
      using i by (simp add: names pair_names_def)
    also have "\<dots> = fst (dfs ! i)"
      using inv1 i asc by (rule pair_names_ascii)
    finally have eq: "fst (results ! i) = fst (dfs ! i)" .
    have "fst (results ! i) \<in> fst ` set results"
      using i len by simp
    with eq show ?thesis by (simp add: out dict_of_keys)
  qed
  have "distinct (map fst results) \<longrightarrow> out = results"
    by (simp add: out dict_of_distinct)
  with rd out len sent kept name show ?thesis
    by (intro exI [of _ dfs] exI [of _ results]) simp
qed

lemma ascii_kept_in_results_example:
  "keys_nonascii fresh
   \<and> (\<exists>out self'. translate_excel upper (\<lambda>p. Inr book) fresh
                      = Inr ((''translated_book.xlsx'', out), self')
         \<and> only_nonascii_sent fresh self' \<and> ''Sheet2'' \<in> fst ` set out)"
proof -
  have k: "keys_nonascii fresh" by (simp add: keys_nonascii_def fresh_def)
  obtain out self' where
    run: "translate_excel upper (\<lambda>p. Inr book) fresh = Inr ((''translated_book.xlsx'', out), self')"
    using book_run by blast
  from ascii_kept_in_results [OF k run] obtain dfs results where
    rd: "(\<lambda>p. Inr book) (file_path fresh) = (Inr dfs :: error + workbook)"
    and sent: "only_nonascii_sent fresh self'"
    and each: "\<forall>i < length dfs.
                 (isascii (fst (dfs ! i)) \<longrightarrow> fst (results ! i) = fst (dfs ! i)
                                                \<and> fst (dfs ! i) \<in> fst ` set out)
                 \<and> ascii_kept (snd (dfs ! i)) (snd (results ! i))"
    by blast
  from rd have dfs: "dfs = book" by simp
  from each [rule_format, of 1] have "''Sheet2'' \<in> fst ` set out"
    by (simp add: dfs book_def)
  with k run sent show ?thesis by blast
qed

text \<open>
  C3: the claim is that every ASCII sheet name, header and cell, and every cell that is
  not a string, is never sent to the service and appears unchanged in the output
  workbook. In the workbook of \<open>read_two\<close> the first sheet is named \<open>Sheet2\<close> and
  holds only ASCII items; the service translates the name of the second sheet to
  \<open>Sheet2\<close>. Nothing ASCII is sent, but the dict of line 146 keeps one entry for the
  name \<open>Sheet2\<close>, with the later value: the written workbook holds the second sheet
  only, and the header \<open>word\<close>, the cell \<open>tea\<close> and the number of the first sheet are
  in no written sheet.
\<close>

theorem colliding_name_drops_ascii_sheet:
  "map_sum id fst (translate_excel collide read_two fresh) =
     Inr (''translated_book.xlsx'', [(''Sheet2'', sheet_of 2)])
   \<and> map_sum id (calls \<circ> snd) (translate_excel collide read_two fresh) = Inr [nihongo]"
  by (simp add: run_defs read_two_def plain_def sheet_of_def fresh_def collide_def nihongo_def)

section \<open>The results of a run\<close>

lemma logged_translate: "set (logged self) \<subseteq> set (logged (translate client item self))"
  by (auto simp: translate_def split: sum.splits)

lemma logged_translate_async:
  "set (logged self) \<subseteq> set (logged (translate_async client xs self))"
proof (induction xs arbitrary: self)
  case Nil
  then show ?case by simp
next
  case (Cons x xs)
  from logged_translate [of self client x] Cons [of "translate client x self"]
  show ?case by simp
qed

lemma logged_translate_DataFrame:
  assumes "translate_DataFrame client key df self = Inr (r, self')"
  shows "set (logged self) \<subseteq> set (logged self')"
proof -
  from assms have "translate_DataFrame client key df self = Inr ((fst r, snd r), self')" by simp
  from translate_DataFrame_Inr(1) [OF this] show ?thesis
    using logged_translate_async by blast
qed

lemma pair_names_nth:
  "i < length dfs \<Longrightarrow>
     pair_names self dfs ! i =
       (case cache self (fst (dfs ! i)) of Some t \<Rightarrow> t | None \<Rightarrow> fst (dfs ! i), snd (dfs ! i))"
  by (cases "dfs ! i") (simp add: pair_names_def split: option.splits)

lemma translate_excel_results:
  assumes run: "translate_excel client read_excel self = Inr ((path, out), self')"
  shows "\<exists>dfs results.
           read_excel (file_path self) = Inr dfs \<and> out = dict_of results
           \<and> length results = length dfs
           \<and> path = ''translated_'' @ file_path self
           \<and> map fst results = map fst (pair_names (translate_names client dfs self) dfs)
           \<and> set (logged (translate_names client dfs self)) \<subseteq> set (logged self')
           \<and> (\<forall>i < length dfs. \<exists>s s'.
                 translate_DataFrame client
                   (case cache (translate_names client dfs self) (fst (dfs ! i)) of
                      Some t \<Rightarrow> t | None \<Rightarrow> fst (dfs ! i))
                   (snd (dfs ! i)) s = Inr (results ! i, s'))"
proof -
  from translate_excel_Inr [OF run] obtain dfs results self3 where
    rd: "read_excel (file_path self) = Inr dfs"
    and sm: "starmap (translate_DataFrame client)
                (pair_names (translate_names client dfs self) dfs)
                ((translate_names client dfs self)
                   \<lparr>logged := logged (translate_names client dfs self) @
                              [(INFO, ''Creating child process...'')]\<rparr>) = Inr (results, self3)"
    and out: "out = dict_of results" and path: "path = ''translated_'' @ file_path self"
    and self': "self' = self3\<lparr>logged := logged self3 @ [(INFO, ''Excel file has been translated!'')]\<rparr>"
    by blast
  let ?self1 = "translate_names client dfs self"
  let ?P = "\<lambda>s. set (logged ?self1) \<subseteq> set (logged s)"
  let ?args = "pair_names ?self1 dfs"
  have "?P self3 \<and> length results = length ?args
        \<and> (\<forall>i < length ?args. \<exists>s s'. ?P s \<and>
         translate_DataFrame client (fst (?args ! i)) (snd (?args ! i)) s = Inr (results ! i, s'))"
  proof (rule starmap_invariant [where f = "translate_DataFrame client" and P = ?P])
    fix a b s r s'
    assume "?P s" "translate_DataFrame client a b s = Inr (r, s')"
    then show "?P s'" using logged_translate_DataFrame by blast
  next
    show "?P (?self1\<lparr>logged := logged ?self1 @ [(INFO, ''Creating child process...'')]\<rparr>)"
      by auto
  next
    show "starmap (translate_DataFrame client) ?args
            (?self1\<lparr>logged := logged ?self1 @ [(INFO, ''Creating child process...'')]\<rparr>)
          = Inr (results, self3)"
      by (rule sm)
  qed
  then have fin: "?P self3" and len: "length results = length ?args"
    and each: "\<forall>i < length ?args. \<exists>s s'.
         translate_DataFrame client (fst (?args ! i)) (snd (?args ! i)) s = Inr (results ! i, s')"
    by blast+
  have len': "length ?args = length dfs" by (simp add: pair_names_def)
  have task: "\<exists>s s'. translate_DataFrame client
                   (case cache ?self1 (fst (dfs ! i)) of Some t \<Rightarrow> t | None \<Rightarrow> fst (dfs ! i))
                   (snd (dfs ! i)) s = Inr (results ! i, s')"
    if "i < length dfs" for i
    using each [rule_format, of i] that len' by (simp add: pair_names_nth)
  have name: "fst (results ! i) = fst (?args ! i)" if i: "i < length dfs" for i
  proof -
    from each i len' obtain s s' where
      "translate_DataFrame client (fst (?args ! i)) (snd (?args ! i)) s
         = Inr ((fst (results ! i), snd (results ! i)), s')"
      by auto
    from translate_DataFrame_Inr(2) [OF this] show ?thesis .
  qed
  have names: "map fst results = map fst ?args"
    using len len' name by (auto intro: nth_equalityI)
  have "set (logged ?self1) \<subseteq> set (logged self')"
    using fin by (auto simp: self')
  with task names show ?thesis
    using rd out path len len' by (intro exI [of _ dfs] exI [of _ results]) simp
qed

lemma isascii_Sheet2 [simp]: "isascii ''Sheet2''" "\<not> isascii nihongo" "\<not> isascii cafe"
  by (simp_all add: nihongo_def cafe_def)

text \<open>The names of a two-sheet workbook whose first name cannot be translated.\<close>

lemma failed_name_run:
  assumes fail: "client nihongo (src_lang self) (trgt_lang self) = Inl e"
    and inv: "keys_nonascii self" and miss: "cache self nihongo = None"
  shows "cache (translate_names client [(nihongo, A), (''Sheet2'', B)] self) nihongo = None"
    and "cache (translate_names client [(nihongo, A), (''Sheet2'', B)] self) ''Sheet2'' = None"
    and "(ERROR, ''Failed with error: '' @ e)
           \<in> set (logged (translate_names client [(nihongo, A), (''Sheet2'', B)] self))"
    and "(WARNING, ''Failed to translate item: '' @ nihongo)
           \<in> set (logged (translate_names client [(nihongo, A), (''Sheet2'', B)] self))"
proof -
  from inv have s2: "cache self ''Sheet2'' = None"
    by (cases "cache self ''Sheet2''") (auto simp: keys_nonascii_def dom_def)
  have cc: "check_cache [nihongo] self = [nihongo]"
    using miss by (simp add: check_cache_def)
  show "cache (translate_names client [(nihongo, A), (''Sheet2'', B)] self) nihongo = None"
    using fail miss by (simp add: translate_names_def cc translate_def)
  show "cache (translate_names client [(nihongo, A), (''Sheet2'', B)] self) ''Sheet2'' = None"
    using fail s2 by (simp add: translate_names_def cc translate_def)
  show "(ERROR, ''Failed with error: '' @ e)
           \<in> set (logged (translate_names client [(nihongo, A), (''Sheet2'', B)] self))"
    using fail by (simp add: translate_names_def cc translate_def)
  show "(WARNING, ''Failed to translate item: '' @ nihongo)
           \<in> set (logged (translate_names client [(nihongo, A), (''Sheet2'', B)] self))"
    using fail by (simp add: translate_names_def cc translate_def)
qed

lemma failing_run:
  "\<exists>out self'. translate_excel failing read_book fresh = Inr ((''translated_book.xlsx'', out), self')"
  by (simp add: run_defs read_book_def book_def words_def fresh_def failing_def cafe_def nihongo_def)

section \<open>Sheet names\<close>

text \<open>
  C5: in a run of \<open>translate_excel\<close> that returns, the result at each place is what
  \<open>translate_DataFrame\<close> returns for the data of the sheet loaded at that place under the
  name the cache holds for the sheet's name after the names were dispatched, or under
  the sheet's own name when the cache holds none. For a workbook with the sheets
  \<open>nihongo\<close> and \<open>Sheet2\<close>, a translator whose cache keys are non-ASCII and do not
  include \<open>nihongo\<close>, and a service that fails on \<open>nihongo\<close>, the sheets written are
  named \<open>nihongo\<close> and \<open>Sheet2\<close>, in this order, and the error and the item are in the log.
\<close>

theorem sheet_paired_with_cached_name:
  assumes run: "translate_excel client read_excel self = Inr ((path, out), self')"
  shows "\<exists>dfs results.
           read_excel (file_path self) = Inr dfs \<and> out = dict_of results
           \<and> length results = length dfs
           \<and> (\<forall>i < length dfs. \<exists>s s'.
                 translate_DataFrame client
                   (case cache (translate_names client dfs self) (fst (dfs ! i)) of
                      Some t \<Rightarrow> t | None \<Rightarrow> fst (dfs ! i))
                   (snd (dfs ! i)) s = Inr (results ! i, s'))
           \<and> (dfs = [(nihongo, A), (''Sheet2'', B)] \<and> keys_nonascii self
                \<and> cache self nihongo = None
                \<and> client nihongo (src_lang self) (trgt_lang self) = Inl e
              \<longrightarrow> map fst out = [nihongo, ''Sheet2'']
                  \<and> (ERROR, ''Failed with error: '' @ e) \<in> set (logged self')
                  \<and> (WARNING, ''Failed to translate item: '' @ nihongo) \<in> set (logged self'))"
proof -
  from translate_excel_results [OF run] obtain dfs results where
    rd: "read_excel (file_path self) = Inr dfs" and out: "out = dict_of results"
    and len: "length results = length dfs"
    and names0: "map fst results = map fst (pair_names (translate_names client dfs self) dfs)"
    and lg: "set (logged (translate_names client dfs self)) \<subseteq> set (logged self')"
    and each: "\<forall>i < length dfs. \<exists>s s'.
                 translate_DataFrame client
                   (case cache (translate_names client dfs self) (fst (dfs ! i)) of
                      Some t \<Rightarrow> t | None \<Rightarrow> fst (dfs ! i))
                   (snd (dfs ! i)) s = Inr (results ! i, s')"
    by blast
  have ex: "map fst out = [nihongo, ''Sheet2'']
            \<and> (ERROR, ''Failed with error: '' @ e) \<in> set (logged self')
            \<and> (WARNING, ''Failed to translate item: '' @ nihongo) \<in> set (logged self')"
    if dfs: "dfs = [(nihongo, A), (''Sheet2'', B)]" and inv: "keys_nonascii self"
      and miss: "cache self nihongo = None"
      and fail: "client nihongo (src_lang self) (trgt_lang self) = Inl e"
  proof -
    note f = failed_name_run [where client = client and self = self and e = e and A = A and B = B,
        OF fail inv miss]
    from each [rule_format, of 0] obtain s0 s0' where
      "translate_DataFrame client nihongo A s0 = Inr ((fst (results ! 0), snd (results ! 0)), s0')"
      by (auto simp: dfs f)
    from translate_DataFrame_Inr(2) [OF this] have n0: "fst (results ! 0) = nihongo" .
    from each [rule_format, of 1] obtain s1 s1' where
      "translate_DataFrame client ''Sheet2'' B s1 = Inr ((fst (results ! 1), snd (results ! 1)), s1')"
      by (auto simp: dfs f)
    from translate_DataFrame_Inr(2) [OF this] have n1: "fst (results ! 1) = ''Sheet2''" .
    from len have "length results = 2" by (simp add: dfs)
    then obtain r0 r1 where rs: "results = [r0, r1]"
      by (cases results; cases "tl results"; auto)
    have names: "map fst results = [nihongo, ''Sheet2'']"
      using n0 n1 by (simp add: rs)
    have "nihongo \<noteq> ''Sheet2''" by (simp add: nihongo_def)
    then have "distinct (map fst results)" by (simp add: names)
    then have "out = results" by (simp add: out dict_of_distinct)
    with names lg f(3,4) show ?thesis by (auto simp: dfs)
  qed
  with rd out len each show ?thesis
    by (intro exI [of _ dfs] exI [of _ results]) simp
qed

theorem sheet_paired_with_cached_name_witness:
  "keys_nonascii fresh \<and> cache fresh nihongo = None
   \<and> failing nihongo (src_lang fresh) (trgt_lang fresh) = Inl ''boom''
   \<and> (\<exists>out self'. translate_excel failing read_book fresh
                      = Inr ((''translated_book.xlsx'', out), self')
         \<and> map fst out = [nihongo, ''Sheet2'']
         \<and> (ERROR, ''Failed with error: boom'') \<in> set (logged self'))"
proof -
  have k: "keys_nonascii fresh" by (simp add: keys_nonascii_def fresh_def)
  have m: "cache fresh nihongo = None" by (simp add: fresh_def)
  have f: "failing nihongo (src_lang fresh) (trgt_lang fresh) = Inl ''boom''"
    by (simp add: failing_def)
  obtain out self' where
    run: "translate_excel failing read_book fresh = Inr ((''translated_book.xlsx'', out), self')"
    using failing_run by blast
  from sheet_paired_with_cached_name [OF run, where A = words and B = words and e = "''boom''"]
  obtain dfs where rd: "read_book (file_path fresh) = Inr dfs"
    and ex: "dfs = [(nihongo, words), (''Sheet2'', words)] \<and> keys_nonascii fresh
                \<and> cache fresh nihongo = None
                \<and> failing nihongo (src_lang fresh) (trgt_lang fresh) = Inl ''boom''
              \<longrightarrow> map fst out = [nihongo, ''Sheet2'']
                  \<and> (ERROR, ''Failed with error: '' @ ''boom'') \<in> set (logged self')
                  \<and> (WARNING, ''Failed to translate item: '' @ nihongo) \<in> set (logged self')"
    by (elim exE conjE)
  from rd have d: "dfs = [(nihongo, words), (''Sheet2'', words)]"
    by (simp add: read_book_def book_def)
  from ex d k m f have res: "map fst out = [nihongo, ''Sheet2'']
      \<and> (ERROR, ''Failed with error: '' @ ''boom'') \<in> set (logged self')" by (elim impE conjE) simp_all
  then have res': "map fst out = [nihongo, ''Sheet2'']
      \<and> (ERROR, ''Failed with error: boom'') \<in> set (logged self')" by simp
  show ?thesis
    using k m f run res' by (intro conjI exI [of _ out] exI [of _ self']) simp_all
qed

section \<open>The output file\<close>

lemma basename_plain:
  assumes "CHR ''/'' \<notin> set p"
  shows "basename p = p"
proof -
  have e: "takeWhile (\<lambda>c. c \<noteq> CHR ''/'') (rev p) = rev p"
    using assms by (auto simp: takeWhile_eq_all_conv)
  show ?thesis unfolding basename_def e by simp
qed

text \<open>
  The path handed to the writer is the input path, as given to the constructor, with
  \<open>translated_\<close> put in front of the whole string; this is the prefixed file name when
  the path has no directory part. When the names paired with the sheets (line 141) are
  pairwise distinct, the written workbook has one sheet per loaded sheet, under these
  names in this order.
\<close>

lemma output_path_prefixes_given_path:
  assumes run: "translate_excel client read_excel self = Inr ((path, out), self')"
  shows "path = ''translated_'' @ file_path self
         \<and> (CHR ''/'' \<notin> set (file_path self) \<longrightarrow> path = ''translated_'' @ basename (file_path self))
         \<and> (\<exists>dfs. read_excel (file_path self) = Inr dfs
               \<and> (distinct (map fst (pair_names (translate_names client dfs self) dfs))
                    \<longrightarrow> length out = length dfs
                        \<and> map fst out = map fst (pair_names (translate_names client dfs self) dfs)))"
proof -
  from translate_excel_results [OF run] obtain dfs results where
    rd: "read_excel (file_path self) = Inr dfs" and out: "out = dict_of results"
    and len: "length results = length dfs"
    and path: "path = ''translated_'' @ file_path self"
    and names: "map fst results = map fst (pair_names (translate_names client dfs self) dfs)"
    by blast
  have "length out = length dfs
        \<and> map fst out = map fst (pair_names (translate_names client dfs self) dfs)"
    if "distinct (map fst (pair_names (translate_names client dfs self) dfs))"
  proof -
    from that names have "distinct (map fst results)" by simp
    then have "out = results" by (simp add: out dict_of_distinct)
    with len names show ?thesis by simp
  qed
  with rd path show ?thesis by (auto simp: basename_plain)
qed

lemma output_path_prefixes_given_path_example:
  "\<exists>out self'. translate_excel upper read_book fresh = Inr ((''translated_book.xlsx'', out), self')
      \<and> CHR ''/'' \<notin> set (file_path fresh)
      \<and> ''translated_book.xlsx'' = ''translated_'' @ basename (file_path fresh)
      \<and> distinct (map fst (pair_names (translate_names upper book fresh) book))
      \<and> length out = length book"
proof -
  obtain out self' where
    run: "translate_excel upper read_book fresh = Inr ((''translated_book.xlsx'', out), self')"
    using book_run by (auto simp: read_book_def [abs_def])
  have s: "CHR ''/'' \<notin> set (file_path fresh)" by (simp add: fresh_def)
  have d: "distinct (map fst (pair_names (translate_names upper book fresh) book))"
    by (simp add: run_defs book_def fresh_def upper_def nihongo_def)
  from output_path_prefixes_given_path [OF run] s obtain dfs where
    p: "''translated_book.xlsx'' = ''translated_'' @ basename (file_path fresh)"
    and rd: "read_book (file_path fresh) = Inr dfs"
    and cnt: "distinct (map fst (pair_names (translate_names upper dfs fresh) dfs))
                    \<longrightarrow> length out = length dfs"
    by blast
  from rd have "dfs = book" by (simp add: read_book_def)
  with cnt d have "length out = length book" by simp
  with run s p d show ?thesis by blast
qed

text \<open>
  C6: the claim is that the workbook is written to a file named by the file name of the
  input path, not the full path, with the prefix \<open>translated_\<close>. For the input path
  \<open>data/book.xlsx\<close> the path handed to \<open>pd.ExcelWriter\<close> (line 148) is
  \<open>translated_data/book.xlsx\<close>: the prefix is in front of the directory, the file name
  is still \<open>book.xlsx\<close>, and the path is not \<open>translated_book.xlsx\<close>.
\<close>

theorem output_path_keeps_directory:
  "map_sum id (fst \<circ> fst) (translate_excel upper read_book nested) = Inr ''translated_data/book.xlsx''
   \<and> map_sum id (fst \<circ> fst) (translate_excel upper read_book nested)
       \<noteq> Inr (''translated_'' @ basename (file_path nested))
   \<and> basename ''translated_data/book.xlsx'' = ''book.xlsx''
   \<and> basename ''translated_data/book.xlsx'' \<noteq> ''translated_'' @ basename (file_path nested)"
  by (simp add: run_defs read_book_def book_def words_def fresh_def nested_def upper_def cafe_def
      nihongo_def basename_def)

section \<open>Sheet order\<close>

text \<open>
  C9: the claim is that the sheets are written in the order in which they were loaded.
  With the three sheets of \<open>read_three\<close> and a service that translates the first name
  to \<open>Sheet2\<close>, the dict of line 146 keeps the first place for the key \<open>Sheet2\<close> and
  takes the value of the third sheet: the third sheet is written first, the second
  after it, and the first sheet is not written.
\<close>

theorem colliding_names_lose_order:
  "map_sum id fst (translate_excel collide read_three fresh) =
     Inr (''translated_book.xlsx'', [(''Sheet2'', sheet_of 3), (''Mid'', sheet_of 2)])"
  by (simp add: run_defs read_three_def sheet_of_def fresh_def collide_def nihongo_def)

section \<open>Determinism of the pipeline\<close>

text \<open>
  The cache after a dispatch does not depend on the order in which the requests are
  made or complete.
\<close>

lemma translate_async_order_irrelevant:
  assumes "set xs = set ys"
  shows "cache (translate_async client xs self) = cache (translate_async client ys self)"
  by (rule ext) (simp add: translate_async_cache assms)

lemma cache_agrees_logged [simp]:
  "cache_agrees client (self\<lparr>logged := l\<rparr>) = cache_agrees client self"
  by (simp add: cache_agrees_def)

lemma cache_agrees_keys: "cache_agrees client self \<Longrightarrow> keys_nonascii self"
  by (auto simp: cache_agrees_def keys_nonascii_def)

text \<open>After a dispatch from an agreeing cache, the entry of a key is the service's answer.\<close>

lemma agreeing_cache_after_dispatch:
  assumes "cache_agrees client self" and "k \<in> set xs \<union> dom (cache self)"
  shows "cache (translate_async client xs self) k =
           (case client k (src_lang self) (trgt_lang self) of
              Inr t \<Rightarrow> Some t | Inl e \<Rightarrow> None)"
proof (cases "cache self k")
  case None
  with assms(2) have "k \<in> set xs" by auto
  with None show ?thesis by (simp add: translate_async_cache split: sum.splits)
next
  case (Some v)
  with assms(1) have "client k (src_lang self) (trgt_lang self) = Inr v"
    by (simp add: cache_agrees_def)
  with Some show ?thesis by (simp add: translate_async_cache)
qed

lemma cache_agrees_translate_async:
  assumes "cache_agrees client self" "\<forall>x \<in> set xs. \<not> isascii x"
  shows "cache_agrees client (translate_async client xs self)"
  unfolding cache_agrees_def
proof (intro allI impI)
  fix k v
  assume kv: "cache (translate_async client xs self) k = Some v"
  show "\<not> isascii k \<and>
        client k (src_lang (translate_async client xs self))
                 (trgt_lang (translate_async client xs self)) = Inr v"
  proof (cases "k \<in> set xs")
    case True
    with assms(2) have na: "\<not> isascii k" by simp
    from True have "k \<in> set xs \<union> dom (cache self)" by simp
    from agreeing_cache_after_dispatch [OF assms(1) this] kv
    have "client k (src_lang self) (trgt_lang self) = Inr v"
      by (simp split: sum.splits)
    with na show ?thesis by simp
  next
    case False
    with kv have "cache self k = Some v" by (simp add: translate_async_cache)
    with assms(1) show ?thesis by (simp add: cache_agrees_def)
  qed
qed

lemma cache_agrees_translate_names:
  assumes "cache_agrees client self"
  shows "cache_agrees client (translate_names client dfs self)"
proof -
  obtain l where "translate_names client dfs self =
     translate_async client (check_cache (filter (\<lambda>name. \<not> isascii name) (map fst dfs)) self)
       (self\<lparr>logged := logged self @ l\<rparr>)"
    using translate_names_eq by blast
  then show ?thesis
    using assms by (simp add: cache_agrees_translate_async)
qed

lemma translate_names_fields [simp]:
  "src_lang (translate_names client dfs self) = src_lang self"
  "trgt_lang (translate_names client dfs self) = trgt_lang self"
  "file_path (translate_names client dfs self) = file_path self"
  by (simp_all add: translate_names_def Let_def)

lemma cache_agrees_translate_DataFrame:
  assumes "cache_agrees client self"
    and "translate_DataFrame client key df self = Inr (r, self')"
  shows "cache_agrees client self'"
    and "src_lang self' = src_lang self" and "trgt_lang self' = trgt_lang self"
    and "file_path self' = file_path self"
proof -
  from assms(2) have "translate_DataFrame client key df self = Inr ((fst r, snd r), self')"
    by simp
  from translate_DataFrame_Inr(1) [OF this] obtain hs where
    hs: "nonascii_headers (columns df) = Inr hs" and
    self': "self' = translate_async client (items_to_translate hs df self) self"
    by blast
  show "cache_agrees client self'"
    unfolding self'
    using assms(1) items_to_translate_nonascii [OF hs] by (rule cache_agrees_translate_async)
  show "src_lang self' = src_lang self" "trgt_lang self' = trgt_lang self"
    "file_path self' = file_path self"
    by (simp_all add: self')
qed

text \<open>The name paired with a sheet does not depend on the agreeing cache a run starts from.\<close>

lemma agreeing_name:
  assumes "cache_agrees client self" and "name \<in> fst ` set dfs"
  shows "cache (translate_names client dfs self) name =
           (if isascii name then None
            else (case client name (src_lang self) (trgt_lang self) of
                    Inr t \<Rightarrow> Some t | Inl e \<Rightarrow> None))"
proof (cases "isascii name")
  case True
  have "cache_agrees client (translate_names client dfs self)"
    using assms(1) by (rule cache_agrees_translate_names)
  then have "keys_nonascii (translate_names client dfs self)"
    by (rule cache_agrees_keys)
  with True show ?thesis
    by (cases "cache (translate_names client dfs self) name") (auto simp: keys_nonascii_def)
next
  case False
  let ?ws = "filter (\<lambda>name. \<not> isascii name) (map fst dfs)"
  obtain l where eq: "translate_names client dfs self =
     translate_async client (check_cache ?ws self) (self\<lparr>logged := logged self @ l\<rparr>)"
    using translate_names_eq by blast
  have ag: "cache_agrees client (self\<lparr>logged := logged self @ l\<rparr>)"
    using assms(1) by simp
  have "name \<in> set ?ws" using assms(2) False by auto
  then have "name \<in> set (check_cache ?ws self) \<union> dom (cache (self\<lparr>logged := logged self @ l\<rparr>))"
    by auto
  from agreeing_cache_after_dispatch [OF ag this] False show ?thesis
    by (simp add: eq)
qed

lemma agreeing_pair_names:
  assumes "cache_agrees client a" "cache_agrees client b"
    and "src_lang a = src_lang b" "trgt_lang a = trgt_lang b"
  shows "pair_names (translate_names client dfs a) dfs = pair_names (translate_names client dfs b) dfs"
proof -
  have eq: "cache (translate_names client dfs a) name = cache (translate_names client dfs b) name"
    if "name \<in> fst ` set dfs" for name
    using agreeing_name [OF assms(1) that] agreeing_name [OF assms(2) that] assms(3,4) by simp
  show ?thesis
    unfolding pair_names_def
  proof (rule map_cong [OF refl])
    fix p assume p: "p \<in> set dfs"
    obtain k v where kv: "p = (k, v)" by (cases p)
    from p kv have "k \<in> fst ` set dfs" by force
    from eq [OF this]
    show "(case p of (key, value) \<Rightarrow>
             (case cache (translate_names client dfs a) key of Some t \<Rightarrow> t | None \<Rightarrow> key, value))
        = (case p of (key, value) \<Rightarrow>
             (case cache (translate_names client dfs b) key of Some t \<Rightarrow> t | None \<Rightarrow> key, value))"
      by (simp add: kv)
  qed
qed

lemma translate_DataFrame_Inl:
  "translate_DataFrame client key df self = Inl e \<longleftrightarrow> nonascii_headers (columns df) = Inl e"
  by (auto simp: translate_DataFrame_def Let_def split: sum.splits)

text \<open>The translated sheet does not depend on the agreeing cache the task starts from.\<close>

lemma agreeing_sheet:
  assumes a: "cache_agrees client a" and b: "cache_agrees client b"
    and langs: "src_lang a = src_lang b" "trgt_lang a = trgt_lang b"
    and ra: "translate_DataFrame client key df a = Inr (ra, a')"
    and rb: "translate_DataFrame client key df b = Inr (rb, b')"
  shows "ra = rb"
proof -
  from ra have ra': "translate_DataFrame client key df a = Inr ((fst ra, snd ra), a')" by simp
  from rb have rb': "translate_DataFrame client key df b = Inr ((fst rb, snd rb), b')" by simp
  from translate_DataFrame_Inr(1) [OF ra'] obtain hs where
    hs: "nonascii_headers (columns df) = Inr hs"
    and a': "a' = translate_async client (items_to_translate hs df a) a"
    by blast
  from translate_DataFrame_Inr(1) [OF rb'] hs have
    b': "b' = translate_async client (items_to_translate hs df b) b"
    by simp
  have look: "cache a' s = cache b' s" if "s \<in> flagged_items df" for s
  proof -
    from that have "s \<in> set (items_to_translate hs df a) \<union> dom (cache a)"
      and "s \<in> set (items_to_translate hs df b) \<union> dom (cache b)"
      by (simp_all add: items_to_translate_set [OF hs])
    from agreeing_cache_after_dispatch [OF a this(1)] agreeing_cache_after_dispatch [OF b this(2)]
    show ?thesis by (simp add: a' b' langs)
  qed
  have agree': "keys_nonascii a'" "keys_nonascii b'"
    using cache_agrees_translate_DataFrame(1) [OF a ra] cache_agrees_translate_DataFrame(1) [OF b rb]
    by (auto intro: cache_agrees_keys)
  have cell: "(if flagged x then cache_get a' x else x) = (if flagged x then cache_get b' x else x)"
    if "r \<in> set (rows df)" "x \<in> set r" for r x
  proof (cases x)
    case (Str s)
    show ?thesis
    proof (cases "isascii s")
      case True
      then show ?thesis by (simp add: Str)
    next
      case False
      with that Str have "s \<in> flagged_items df" by (auto simp: flagged_items_def)
      from look [OF this] show ?thesis by (simp add: Str cache_get_Str)
    qed
  qed simp_all
  have header: "cache_get_default a' h = cache_get_default b' h" if "h \<in> set (columns df)" for h
  proof (cases h)
    case (Str s)
    show ?thesis
    proof (cases "isascii s")
      case True
      with agree' have "cache a' s = None" "cache b' s = None"
        by (auto simp: keys_nonascii_def)
      then show ?thesis by (simp add: Str cache_get_default_Str)
    next
      case False
      with that Str have "s \<in> flagged_items df" by (auto simp: flagged_items_def)
      from look [OF this] show ?thesis by (simp add: Str cache_get_default_Str)
    qed
  qed (simp_all add: cache_get_default_def)
  have "rows (snd ra) = rows (snd rb)"
    unfolding translate_DataFrame_Inr(3) [OF ra'] translate_DataFrame_Inr(3) [OF rb']
    by (intro map_cong refl) (rule cell)
  moreover have "columns (snd ra) = columns (snd rb)"
    unfolding translate_DataFrame_Inr(4) [OF ra'] translate_DataFrame_Inr(4) [OF rb']
    by (intro map_cong refl) (rule header)
  ultimately have "snd ra = snd rb" by (intro DataFrame.equality) simp_all
  moreover have "fst ra = fst rb"
    using translate_DataFrame_Inr(2) [OF ra'] translate_DataFrame_Inr(2) [OF rb'] by simp
  ultimately show ?thesis by (simp add: prod_eq_iff)
qed

lemma agreeing_starmap:
  assumes "cache_agrees client a" "cache_agrees client b"
    and "src_lang a = src_lang b" "trgt_lang a = trgt_lang b"
  shows "map_sum id fst (starmap (translate_DataFrame client) args a)
         = map_sum id fst (starmap (translate_DataFrame client) args b)"
  using assms
proof (induction args arbitrary: a b)
  case Nil
  then show ?case by simp
next
  case (Cons x args)
  obtain key df where x: "x = (key, df)" by (cases x)
  show ?case
  proof (cases "nonascii_headers (columns df)")
    case (Inl e)
    then have "translate_DataFrame client key df a = Inl e"
      "translate_DataFrame client key df b = Inl e"
      by (simp_all add: translate_DataFrame_Inl)
    then show ?thesis by (simp add: x)
  next
    case (Inr hs)
    obtain ra a' where ra: "translate_DataFrame client key df a = Inr (ra, a')"
      using Inr by (cases "translate_DataFrame client key df a") (auto simp: translate_DataFrame_Inl)
    obtain rb b' where rb: "translate_DataFrame client key df b = Inr (rb, b')"
      using Inr by (cases "translate_DataFrame client key df b") (auto simp: translate_DataFrame_Inl)
    have r: "ra = rb"
      using Cons.prems ra rb by (rule agreeing_sheet)
    have "map_sum id fst (starmap (translate_DataFrame client) args a')
          = map_sum id fst (starmap (translate_DataFrame client) args b')"
      using cache_agrees_translate_DataFrame [OF Cons.prems(1) ra]
        cache_agrees_translate_DataFrame [OF Cons.prems(2) rb] Cons.prems(3,4)
      by (intro Cons.IH) simp_all
    then show ?thesis
      by (cases "starmap (translate_DataFrame client) args a'";
          cases "starmap (translate_DataFrame client) args b'")
         (auto simp: x ra rb r)
  qed
qed

lemma cache_agrees_translate_excel:
  assumes ag: "cache_agrees client self"
    and run: "translate_excel client read_excel self = Inr (res, self')"
  shows "cache_agrees client self' \<and> src_lang self' = src_lang self
         \<and> trgt_lang self' = trgt_lang self \<and> file_path self' = file_path self"
proof -
  from run have "translate_excel client read_excel self = Inr ((fst res, snd res), self')" by simp
  from translate_excel_Inr [OF this] obtain dfs results self3 where
    sm: "starmap (translate_DataFrame client)
                (pair_names (translate_names client dfs self) dfs)
                ((translate_names client dfs self)
                   \<lparr>logged := logged (translate_names client dfs self) @
                              [(INFO, ''Creating child process...'')]\<rparr>) = Inr (results, self3)"
    and self': "self' = self3\<lparr>logged := logged self3 @ [(INFO, ''Excel file has been translated!'')]\<rparr>"
    by blast
  let ?P = "\<lambda>s. cache_agrees client s \<and> src_lang s = src_lang self
                \<and> trgt_lang s = trgt_lang self \<and> file_path s = file_path self"
  have "?P self3 \<and> length results = length (pair_names (translate_names client dfs self) dfs)
        \<and> (\<forall>i < length (pair_names (translate_names client dfs self) dfs). \<exists>s s'. ?P s \<and>
             translate_DataFrame client (fst (pair_names (translate_names client dfs self) dfs ! i))
               (snd (pair_names (translate_names client dfs self) dfs ! i)) s = Inr (results ! i, s'))"
  proof (rule starmap_invariant [where f = "translate_DataFrame client" and P = ?P])
    fix k d s r s'
    assume "?P s" "translate_DataFrame client k d s = Inr (r, s')"
    then show "?P s'"
      using cache_agrees_translate_DataFrame [of client s k d r s'] by simp
  next
    show "?P ((translate_names client dfs self)
                   \<lparr>logged := logged (translate_names client dfs self) @
                              [(INFO, ''Creating child process...'')]\<rparr>)"
      using cache_agrees_translate_names [OF ag] by simp
  next
    show "starmap (translate_DataFrame client)
                (pair_names (translate_names client dfs self) dfs)
                ((translate_names client dfs self)
                   \<lparr>logged := logged (translate_names client dfs self) @
                              [(INFO, ''Creating child process...'')]\<rparr>) = Inr (results, self3)"
      by (rule sm)
  qed
  then have "?P self3" by blast
  then show ?thesis by (simp add: self')
qed

text \<open>
  C8: the service answers by a function of the request. Two runs of \<open>translate_excel\<close>
  on the same file and languages, started from any two caches that agree with the
  service (the empty cache of a new translator, or whatever other runs and workers
  have put there), have the same outcome: the same error, or the same output path and
  the same sheets with the same names, headers and cells, in the same order. A run
  leaves a cache that agrees with the service, so running again on the translator the
  first run left gives the same output.
\<close>

theorem pipeline_deterministic:
  assumes a: "cache_agrees client a" and b: "cache_agrees client b"
    and conf: "file_path a = file_path b" "src_lang a = src_lang b" "trgt_lang a = trgt_lang b"
  shows "map_sum id fst (translate_excel client read_excel a)
           = map_sum id fst (translate_excel client read_excel b)
         \<and> (\<forall>res a'. translate_excel client read_excel a = Inr (res, a')
               \<longrightarrow> cache_agrees client a'
                   \<and> map_sum id fst (translate_excel client read_excel a') = Inr res)"
proof -
  have two: "map_sum id fst (translate_excel client read_excel x)
             = map_sum id fst (translate_excel client read_excel y)"
    if x: "cache_agrees client x" and y: "cache_agrees client y"
      and c: "file_path x = file_path y" "src_lang x = src_lang y" "trgt_lang x = trgt_lang y"
    for x y
  proof (cases "read_excel (file_path y)")
    case (Inl e)
    then show ?thesis by (simp add: translate_excel_def open_excel_def c)
  next
    case (Inr dfs)
    let ?x1 = "translate_names client dfs x" and ?y1 = "translate_names client dfs y"
    let ?x2 = "?x1\<lparr>logged := logged ?x1 @ [(INFO, ''Creating child process...'')]\<rparr>"
    let ?y2 = "?y1\<lparr>logged := logged ?y1 @ [(INFO, ''Creating child process...'')]\<rparr>"
    have args: "pair_names ?x1 dfs = pair_names ?y1 dfs"
      using x y c(2,3) by (rule agreeing_pair_names)
    have "map_sum id fst (starmap (translate_DataFrame client) (pair_names ?y1 dfs) ?x2)
          = map_sum id fst (starmap (translate_DataFrame client) (pair_names ?y1 dfs) ?y2)"
      using cache_agrees_translate_names [OF x] cache_agrees_translate_names [OF y] c
      by (intro agreeing_starmap) simp_all
    then show ?thesis
      by (cases "starmap (translate_DataFrame client) (pair_names ?y1 dfs) ?x2";
          cases "starmap (translate_DataFrame client) (pair_names ?y1 dfs) ?y2")
         (auto simp: translate_excel_def open_excel_def Let_def Inr c args)
  qed
  have again: "cache_agrees client a'
               \<and> map_sum id fst (translate_excel client read_excel a') = Inr res"
    if run: "translate_excel client read_excel a = Inr (res, a')" for res a'
  proof -
    from cache_agrees_translate_excel [OF a run] have
      a': "cache_agrees client a'" and c': "file_path a' = file_path a"
        "src_lang a' = src_lang a" "trgt_lang a' = trgt_lang a"
      by simp_all
    from two [OF a' a c'] run show ?thesis using a' by simp
  qed
  from two [OF a b conf] again show ?thesis by blast
qed

theorem pipeline_deterministic_witness:
  "cache_agrees upper fresh \<and> cache_agrees upper warm
   \<and> file_path fresh = file_path warm \<and> src_lang fresh = src_lang warm
   \<and> trgt_lang fresh = trgt_lang warm \<and> cache fresh \<noteq> cache warm
   \<and> map_sum id fst (translate_excel upper read_book fresh)
       = map_sum id fst (translate_excel upper read_book warm)"
proof -
  have a: "cache_agrees upper fresh" by (simp add: cache_agrees_def fresh_def)
  have b: "cache_agrees upper warm"
    by (auto simp: cache_agrees_def warm_def fresh_def upper_def split: if_splits)
  have c: "file_path fresh = file_path warm" "src_lang fresh = src_lang warm"
    "trgt_lang fresh = trgt_lang warm"
    by (simp_all add: warm_def)
  have d: "cache fresh \<noteq> cache warm"
  proof
    assume "cache fresh = cache warm"
    then have "cache fresh cafe = cache warm cafe" by simp
    then show False by (simp add: fresh_def warm_def)
  qed
  from pipeline_deterministic [OF a b c, of read_book] a b c d show ?thesis by simp
qed

end
